theory Spec2Isabelle
  imports Main
begin

section \<open>Strings: the functions of Go's \<open>strings\<close> package that the detector calls\<close>

text \<open>
  A Go string is a sequence of bytes; so is a HOL \<open>string\<close>. An index that Go reports
  as \<open>-1\<close> is \<open>None\<close> here.
\<close>

fun HasPrefix :: "string \<Rightarrow> string \<Rightarrow> bool" where
  "HasPrefix s [] = True"
| "HasPrefix [] (p # ps) = False"
| "HasPrefix (c # cs) (p # ps) = (c = p \<and> HasPrefix cs ps)"

definition HasSuffix :: "string \<Rightarrow> string \<Rightarrow> bool" where
  "HasSuffix s suf = HasPrefix (rev s) (rev suf)"

definition TrimSuffix :: "string \<Rightarrow> string \<Rightarrow> string" where
  "TrimSuffix s suf = (if HasSuffix s suf then take (length s - length suf) s else s)"

fun Index :: "string \<Rightarrow> string \<Rightarrow> nat option" where
  "Index [] sep = (if sep = [] then Some 0 else None)"
| "Index (c # cs) sep =
     (if HasPrefix (c # cs) sep then Some 0 else map_option Suc (Index cs sep))"

fun LastIndex :: "string \<Rightarrow> string \<Rightarrow> nat option" where
  "LastIndex [] sep = (if sep = [] then Some 0 else None)"
| "LastIndex (c # cs) sep =
     (case LastIndex cs sep of
        Some i \<Rightarrow> Some (Suc i)
      | None \<Rightarrow> (if HasPrefix (c # cs) sep then Some 0 else None))"

definition Contains :: "string \<Rightarrow> string \<Rightarrow> bool" where
  "Contains s sub = (Index s sub \<noteq> None)"

lemma HasPrefix_length: "HasPrefix s p \<Longrightarrow> length p \<le> length s"
  by (induction s p rule: HasPrefix.induct) auto

lemma Index_bound: "Index s sep = Some i \<Longrightarrow> i + length sep \<le> length s"
proof (induction s arbitrary: i)
  case Nil
  then show ?case by (simp split: if_splits)
next
  case (Cons c cs)
  show ?case
  proof (cases "HasPrefix (c # cs) sep")
    case True
    with Cons.prems HasPrefix_length [OF True] show ?thesis by simp
  next
    case False
    with Cons.prems obtain j where "Index cs sep = Some j" "i = Suc j" by auto
    with Cons.IH [of j] show ?thesis by simp
  qed
qed

text \<open>
  \<open>strings.Split(s, sep)\<close> for a non-empty separator: the pieces of \<open>s\<close> between the
  occurrences of \<open>sep\<close>, at least one piece. The detector only splits on \<open>"."\<close> and on
  the version marker, so the empty separator (which in Go explodes the string into its
  characters) gets the single piece \<open>s\<close> here and is never used.
\<close>

function Split :: "string \<Rightarrow> string \<Rightarrow> string list" where
  "Split s sep =
     (if sep = [] then [s]
      else (case Index s sep of
              None \<Rightarrow> [s]
            | Some i \<Rightarrow> take i s # Split (drop (i + length sep) s) sep))"
  by pat_completeness auto
termination
proof (relation "measure (\<lambda>(s, sep). length s)")
  show "wf (measure (\<lambda>(s, sep). length s))" by simp
next
  fix s sep :: string and i :: nat
  assume "sep \<noteq> []" and "Index s sep = Some i"
  then have "i + length sep \<le> length s" and "0 < length sep"
    by (auto dest: Index_bound)
  then have "length s - (i + length sep) < length s"
    by arith
  then show "((drop (i + length sep) s, sep), (s, sep)) \<in> measure (\<lambda>(s, sep). length s)"
    by simp
qed

declare Split.simps [simp del]

fun Join :: "string list \<Rightarrow> string \<Rightarrow> string" where
  "Join [] sep = []"
| "Join [x] sep = x"
| "Join (x # y # ys) sep = x @ sep @ Join (y # ys) sep"

text \<open>
  \<open>strings.EqualFold\<close> on ASCII: two strings are equal once every upper-case ASCII
  letter is replaced by its lower-case one. (Go folds the letters of all of Unicode; header
  names and host names, the only strings compared this way, are ASCII.)
\<close>

definition lower_ascii :: "char \<Rightarrow> char" where
  "lower_ascii c =
     (case map_of (zip ''ABCDEFGHIJKLMNOPQRSTUVWXYZ'' ''abcdefghijklmnopqrstuvwxyz'') c of
        Some l \<Rightarrow> l
      | None \<Rightarrow> c)"

definition EqualFold :: "string \<Rightarrow> string \<Rightarrow> bool" where
  "EqualFold s t = (map lower_ascii s = map lower_ascii t)"

section \<open>Data model\<close>

text \<open>
  A rule expression is what \<open>encoding/json\<close> decodes into \<open>interface{}\<close>: a tree of
  objects, arrays, strings, booleans, numbers and null. An object is a Go map; the order
  of the association list is the order in which \<open>range\<close> visits its keys in the run at
  hand. Numbers are never inspected by the detector.
\<close>

datatype json =
    JNull
  | JBool bool
  | JNum int
  | JStr string
  | JArr "json list"
  | JObj "(string \<times> json) list"

record DetectionContext =
  Body :: string
  Headers :: "(string \<times> string) list"
  StatusCode :: int

text \<open>
  The regular-expression engine is Go's \<open>regexp\<close> package, outside the repository: it is
  a parameter. \<open>rx p\<close> is \<open>regexp.Compile(p)\<close>, \<open>None\<close> when the pattern does not
  compile; the compiled pattern maps a subject to \<open>FindStringSubmatch\<close>'s result, the
  empty list when there is no match, else the whole match followed by the groups.
\<close>

type_synonym regex_engine = "string \<Rightarrow> (string \<Rightarrow> string list) option"

section \<open>Query evaluator (query.go)\<close>

definition version_marker :: string where
  "version_marker = CHR 0x5C # '';version:''"

definition evaluateRegex :: "regex_engine \<Rightarrow> string \<Rightarrow> json \<Rightarrow> bool \<times> string" where
  "evaluateRegex rx fieldValue pattern =
     (case pattern of
        JStr patternStr \<Rightarrow>
          (case Split patternStr version_marker of
             [] \<Rightarrow> (False, [])
           | actualPattern # rest \<Rightarrow>
               (case rx actualPattern of
                  None \<Rightarrow> (False, [])
                | Some re \<Rightarrow>
                    (let matches = re fieldValue in
                     if length matches = 0 then (False, [])
                     else (True, if rest \<noteq> [] \<and> length matches > 1 then matches ! 1 else []))))
      | _ \<Rightarrow> (False, []))"

definition evaluateEquals :: "string \<Rightarrow> json \<Rightarrow> bool \<times> string" where
  "evaluateEquals fieldValue operand =
     (case operand of JStr expectedValue \<Rightarrow> (fieldValue = expectedValue, []) | _ \<Rightarrow> (False, []))"

definition evaluateNotEquals :: "string \<Rightarrow> json \<Rightarrow> bool \<times> string" where
  "evaluateNotEquals fieldValue operand =
     (case operand of JStr expectedValue \<Rightarrow> (fieldValue \<noteq> expectedValue, []) | _ \<Rightarrow> (False, []))"

definition evaluateExists :: "string \<Rightarrow> json \<Rightarrow> bool \<times> string" where
  "evaluateExists fieldValue operand =
     (case operand of
        JBool shouldExist \<Rightarrow> (let exists = (fieldValue \<noteq> []) in (exists = shouldExist, []))
      | _ \<Rightarrow> (False, []))"

fun in_values :: "string \<Rightarrow> json list \<Rightarrow> bool" where
  "in_values fieldValue [] = False"
| "in_values fieldValue (v # vs) =
     (case v of
        JStr strValue \<Rightarrow> (if fieldValue = strValue then True else in_values fieldValue vs)
      | _ \<Rightarrow> in_values fieldValue vs)"

definition evaluateIn :: "string \<Rightarrow> json \<Rightarrow> bool \<times> string" where
  "evaluateIn fieldValue operand =
     (case operand of JArr values \<Rightarrow> (in_values fieldValue values, []) | _ \<Rightarrow> (False, []))"

definition evaluateNotIn :: "string \<Rightarrow> json \<Rightarrow> bool \<times> string" where
  "evaluateNotIn fieldValue operand =
     (case operand of JArr values \<Rightarrow> (\<not> in_values fieldValue values, []) | _ \<Rightarrow> (False, []))"

text \<open>The case-insensitive header lookup of \<open>getFieldValue\<close>: the first header, in the
  order of the iteration, whose name folds to the wanted one.\<close>

fun header_lookup :: "string \<Rightarrow> (string \<times> string) list \<Rightarrow> string" where
  "header_lookup headerName [] = []"
| "header_lookup headerName ((k, v) # hs) =
     (if EqualFold k headerName then v else header_lookup headerName hs)"

definition getFieldValue :: "string \<Rightarrow> DetectionContext \<Rightarrow> string" where
  "getFieldValue fieldPath ctx =
     (case Split fieldPath ''.'' of
        [] \<Rightarrow> []
      | p0 # ps \<Rightarrow>
          (if p0 = ''body'' then Body ctx
           else if p0 = ''headers'' \<and> ps \<noteq> []
             then header_lookup (Join ps ''.'') (Headers ctx)
           else []))"

text \<open>The operator loop of \<open>evaluateField\<close>: the first known operator met decides.\<close>

fun field_operators :: "regex_engine \<Rightarrow> string \<Rightarrow> (string \<times> json) list \<Rightarrow> bool \<times> string" where
  "field_operators rx fieldValue [] = (False, [])"
| "field_operators rx fieldValue ((operator, operand) # rest) =
     (if operator = ''$regex'' then evaluateRegex rx fieldValue operand
      else if operator = ''$eq'' then evaluateEquals fieldValue operand
      else if operator = ''$ne'' then evaluateNotEquals fieldValue operand
      else if operator = ''$exists'' then evaluateExists fieldValue operand
      else if operator = ''$in'' then evaluateIn fieldValue operand
      else if operator = ''$nin'' then evaluateNotIn fieldValue operand
      else field_operators rx fieldValue rest)"

definition evaluateField ::
  "regex_engine \<Rightarrow> string \<Rightarrow> json \<Rightarrow> DetectionContext \<Rightarrow> bool \<times> string" where
  "evaluateField rx fieldPath condition ctx =
     (let fieldValue = getFieldValue fieldPath ctx in
      if fieldValue = [] then (False, [])
      else (case condition of
              JObj condMap \<Rightarrow> field_operators rx fieldValue condMap
            | _ \<Rightarrow> (False, [])))"

text \<open>
  \<open>evaluateQuery\<close> returns from inside its \<open>range\<close> loop on the first key, whatever the
  key is. The loops of \<open>evaluateOr\<close>, \<open>evaluateAnd\<close> and \<open>evaluateNor\<close> are the
  functions \<open>or_loop\<close>, \<open>and_loop\<close> and \<open>nor_loop\<close>; \<open>and_loop\<close> carries the local
  variable \<open>version\<close>.
\<close>

fun evaluateQuery :: "regex_engine \<Rightarrow> (string \<times> json) list \<Rightarrow> DetectionContext \<Rightarrow> bool \<times> string"
  and evaluateOr :: "regex_engine \<Rightarrow> json \<Rightarrow> DetectionContext \<Rightarrow> bool \<times> string"
  and or_loop :: "regex_engine \<Rightarrow> json list \<Rightarrow> DetectionContext \<Rightarrow> bool \<times> string"
  and evaluateAnd :: "regex_engine \<Rightarrow> json \<Rightarrow> DetectionContext \<Rightarrow> bool \<times> string"
  and and_loop :: "regex_engine \<Rightarrow> json list \<Rightarrow> string \<Rightarrow> DetectionContext \<Rightarrow> bool \<times> string"
  and evaluateNot :: "regex_engine \<Rightarrow> json \<Rightarrow> DetectionContext \<Rightarrow> bool \<times> string"
  and evaluateNor :: "regex_engine \<Rightarrow> json \<Rightarrow> DetectionContext \<Rightarrow> bool \<times> string"
  and nor_loop :: "regex_engine \<Rightarrow> json list \<Rightarrow> DetectionContext \<Rightarrow> bool \<times> string"
where
  "evaluateQuery rx [] ctx = (False, [])"
| "evaluateQuery rx ((key, value) # rest) ctx =
     (if key = ''$or'' then evaluateOr rx value ctx
      else if key = ''$and'' then evaluateAnd rx value ctx
      else if key = ''$not'' then evaluateNot rx value ctx
      else if key = ''$nor'' then evaluateNor rx value ctx
      else evaluateField rx key value ctx)"
| "evaluateOr rx (JArr conditions) ctx = or_loop rx conditions ctx"
| "evaluateOr rx JNull ctx = (False, [])"
| "evaluateOr rx (JBool b) ctx = (False, [])"
| "evaluateOr rx (JNum n) ctx = (False, [])"
| "evaluateOr rx (JStr s) ctx = (False, [])"
| "evaluateOr rx (JObj m) ctx = (False, [])"
| "or_loop rx [] ctx = (False, [])"
| "or_loop rx (cond # conds) ctx =
     (case cond of
        JObj condMap \<Rightarrow>
          (case evaluateQuery rx condMap ctx of
             (match, version) \<Rightarrow> if match then (True, version) else or_loop rx conds ctx)
      | _ \<Rightarrow> or_loop rx conds ctx)"
| "evaluateAnd rx (JArr conditions) ctx = and_loop rx conditions [] ctx"
| "evaluateAnd rx JNull ctx = (False, [])"
| "evaluateAnd rx (JBool b) ctx = (False, [])"
| "evaluateAnd rx (JNum n) ctx = (False, [])"
| "evaluateAnd rx (JStr s) ctx = (False, [])"
| "evaluateAnd rx (JObj m) ctx = (False, [])"
| "and_loop rx [] version ctx = (True, version)"
| "and_loop rx (cond # conds) version ctx =
     (case cond of
        JObj condMap \<Rightarrow>
          (case evaluateQuery rx condMap ctx of
             (match, v) \<Rightarrow>
               if \<not> match then (False, [])
               else and_loop rx conds (if v \<noteq> [] then v else version) ctx)
      | _ \<Rightarrow> (False, []))"
| "evaluateNot rx (JObj condMap) ctx =
     (case evaluateQuery rx condMap ctx of (match, v) \<Rightarrow> (\<not> match, []))"
| "evaluateNot rx JNull ctx = (False, [])"
| "evaluateNot rx (JBool b) ctx = (False, [])"
| "evaluateNot rx (JNum n) ctx = (False, [])"
| "evaluateNot rx (JStr s) ctx = (False, [])"
| "evaluateNot rx (JArr a) ctx = (False, [])"
| "evaluateNor rx (JArr conditions) ctx = nor_loop rx conditions ctx"
| "evaluateNor rx JNull ctx = (False, [])"
| "evaluateNor rx (JBool b) ctx = (False, [])"
| "evaluateNor rx (JNum n) ctx = (False, [])"
| "evaluateNor rx (JStr s) ctx = (False, [])"
| "evaluateNor rx (JObj m) ctx = (False, [])"
| "nor_loop rx [] ctx = (True, [])"
| "nor_loop rx (cond # conds) ctx =
     (case cond of
        JObj condMap \<Rightarrow>
          (case evaluateQuery rx condMap ctx of
             (match, v) \<Rightarrow> if match then (False, []) else nor_loop rx conds ctx)
      | _ \<Rightarrow> nor_loop rx conds ctx)"

definition Evaluate :: "regex_engine \<Rightarrow> (string \<times> json) list \<Rightarrow> DetectionContext \<Rightarrow> bool \<times> string" where
  "Evaluate rx query ctx = evaluateQuery rx query ctx"

section \<open>Fetch pipeline (http_detector.go)\<close>

text \<open>
  A Go \<open>error\<close> is an error value with a message; \<open>fmt.Errorf("...: %w", err)\<close> wraps
  one in another, whose message is the prefix followed by the wrapped error's message.
\<close>

datatype error = Err string | Wrap string error

fun error_string :: "error \<Rightarrow> string" where
  "error_string (Err s) = s"
| "error_string (Wrap p e) = p @ error_string e"

record RequestConfig =
  Method :: string
  cfg_Headers :: "(string \<times> string) list"
  cfg_Body :: json

record Request =
  req_Method :: string
  req_URL :: string
  req_Header :: "(string \<times> string list) list"

record Response =
  resp_StatusCode :: int
  resp_Header :: "(string \<times> string list) list"
  resp_Body :: string

text \<open>
  What \<open>client.Do\<close> followed by \<open>io.ReadAll\<close> gives: the request fails, the body
  cannot be read, or there is a response with its body.
\<close>

datatype outcome = DoFailed error | ReadFailed error | Responded Response

text \<open>
  The trace of a run, oldest event first: every entry into \<open>makeRequest\<close> (a ghost
  event, with the URL), every request handed to the HTTP client with what came back, and
  every \<open>time.Sleep\<close> (in nanoseconds).
\<close>

datatype event = Attempt string | Exchange Request outcome | Sleep int

text \<open>
  The world outside the repository: the regular-expression engine, the checks of
  \<open>http.NewRequest\<close> (method and URL), the canonical form of a header name, and the
  network, whose answer to a request may depend on everything that happened before.
\<close>

record world =
  regex :: regex_engine
  NewRequest_error :: "string \<Rightarrow> string \<Rightarrow> error option"
  CanonicalHeaderKey :: "string \<Rightarrow> string"
  client_Do :: "event list \<Rightarrow> Request \<Rightarrow> outcome"

definition MaxRetries :: nat where "MaxRetries = 1"
definition MaxRedirects :: nat where "MaxRedirects = 3"
definition InitialBackoff :: int where "InitialBackoff = 1000000000"

record URLParts =
  scheme :: string
  host :: string
  port :: string

definition parseURL :: "string \<Rightarrow> error + URLParts" where
  "parseURL urlStr =
     (case Index urlStr ''://'' of
        None \<Rightarrow> Inl (Err ''invalid URL: no scheme'')
      | Some schemeEnd \<Rightarrow>
          (let sch = take schemeEnd urlStr;
               rest = drop (schemeEnd + 3) urlStr;
               hostPort = (case Index rest ''/'' of None \<Rightarrow> rest | Some slashIdx \<Rightarrow> take slashIdx rest)
           in case LastIndex hostPort '':'' of
                Some colonIdx \<Rightarrow>
                  Inr \<lparr>scheme = sch, host = take colonIdx hostPort, port = drop (colonIdx + 1) hostPort\<rparr>
              | None \<Rightarrow>
                  Inr \<lparr>scheme = sch, host = hostPort,
                       port = (if sch = ''https'' then ''443'' else ''80'')\<rparr>))"

definition resolveURL :: "string \<Rightarrow> string \<Rightarrow> error + string" where
  "resolveURL base relative =
     (if HasPrefix relative ''http://'' \<or> HasPrefix relative ''https://'' then Inr relative
      else if HasPrefix relative ''//'' then
        (case parseURL base of
           Inl err \<Rightarrow> Inl err
         | Inr baseParts \<Rightarrow> Inr (scheme baseParts @ '':'' @ relative))
      else if HasPrefix relative ''/'' then
        (case Index base ''://'' of
           None \<Rightarrow> Inl (Err ''invalid base URL'')
         | Some schemeEnd \<Rightarrow>
             (let rest = drop (schemeEnd + 3) base;
                  basePrefix = (case Index rest ''/'' of
                                  None \<Rightarrow> base
                                | Some slashIdx \<Rightarrow> take (schemeEnd + 3 + slashIdx) base)
              in Inr (basePrefix @ relative)))
      else if HasSuffix base ''/'' then Inr (base @ relative)
      else Inr (base @ ''/'' @ relative))"

definition isSameDomain :: "URLParts \<Rightarrow> URLParts \<Rightarrow> bool" where
  "isSameDomain url1 url2 = EqualFold (host url1) (host url2)"

text \<open>\<open>req.Header.Set(k, v)\<close>: the canonical key gets the single value \<open>v\<close>.\<close>

fun Header_Set :: "string \<Rightarrow> string \<Rightarrow> (string \<times> string list) list \<Rightarrow> (string \<times> string list) list" where
  "Header_Set k v [] = [(k, [v])]"
| "Header_Set k v ((k', vs) # h) = (if k' = k then (k, [v]) # h else (k', vs) # Header_Set k v h)"

fun set_headers :: "world \<Rightarrow> (string \<times> string) list \<Rightarrow> Request \<Rightarrow> Request" where
  "set_headers w [] req = req"
| "set_headers w ((k, v) # kvs) req =
     set_headers w kvs (req\<lparr>req_Header := Header_Set (CanonicalHeaderKey w k) v (req_Header req)\<rparr>)"

text \<open>\<open>resp.Header.Get(key)\<close>: the first value under the canonical key, else the empty string.\<close>

definition Header_Get :: "world \<Rightarrow> (string \<times> string list) list \<Rightarrow> string \<Rightarrow> string" where
  "Header_Get w h key =
     (case map_of h (CanonicalHeaderKey w key) of Some (v # vs) \<Rightarrow> v | _ \<Rightarrow> [])"

text \<open>The loop over the headers of one response: a name not seen before gets the first of
  its values; a name with no value is passed over.\<close>

fun collect_headers :: "(string \<times> string list) list \<Rightarrow> (string \<times> string) list \<Rightarrow> (string \<times> string) list" where
  "collect_headers [] allHeaders = allHeaders"
| "collect_headers ((k, v) # rest) allHeaders =
     collect_headers rest
       (case v of
          [] \<Rightarrow> allHeaders
        | v0 # vs \<Rightarrow> (if map_of allHeaders k = None then allHeaders @ [(k, v0)] else allHeaders))"

definition newline :: string where
  "newline = [CHR 0x0A]"

definition request_method :: "RequestConfig option \<Rightarrow> string" where
  "request_method reqConfig =
     (case reqConfig of
        None \<Rightarrow> ''GET''
      | Some c \<Rightarrow> (if Method c \<noteq> [] then Method c else ''GET''))"

definition build_request :: "world \<Rightarrow> RequestConfig option \<Rightarrow> string \<Rightarrow> error + Request" where
  "build_request w reqConfig currentURL =
     (let method = request_method reqConfig in
      case NewRequest_error w method currentURL of
        Some err \<Rightarrow> Inl err
      | None \<Rightarrow>
          (let req = \<lparr>req_Method = method, req_URL = currentURL, req_Header = []\<rparr> in
           Inr (case reqConfig of None \<Rightarrow> req | Some c \<Rightarrow> set_headers w (cfg_Headers c) req)))"

text \<open>
  What the redirect branch of \<open>makeRequest\<close> decides after a response: \<open>Some url\<close> to
  follow the redirect, \<open>None\<close> for every \<open>break\<close>.
\<close>

definition next_hop :: "world \<Rightarrow> string \<Rightarrow> nat \<Rightarrow> Response \<Rightarrow> string option" where
  "next_hop w currentURL redirectCount resp =
     (if 300 \<le> resp_StatusCode resp \<and> resp_StatusCode resp < 400 then
        (let location = Header_Get w (resp_Header resp) ''Location'' in
         if location = [] then None
         else if redirectCount \<ge> MaxRedirects then None
         else (case parseURL currentURL of
                 Inl err \<Rightarrow> None
               | Inr currentURLParsed \<Rightarrow>
                   (case resolveURL currentURL location of
                      Inl err \<Rightarrow> None
                    | Inr redirectURL \<Rightarrow>
                        (case parseURL redirectURL of
                           Inl err \<Rightarrow> None
                         | Inr redirectURLParsed \<Rightarrow>
                             (if \<not> isSameDomain currentURLParsed redirectURLParsed then None
                              else Some redirectURL)))))
      else None)"

lemma next_hop_bound: "next_hop w u n resp = Some u' \<Longrightarrow> n < MaxRedirects"
  by (auto simp: next_hop_def Let_def split: if_splits sum.splits)

function makeRequest_loop ::
  "world \<Rightarrow> RequestConfig option \<Rightarrow> string \<Rightarrow> nat \<Rightarrow> string list \<Rightarrow> (string \<times> string) list
     \<Rightarrow> event list \<Rightarrow> (error + DetectionContext) \<times> event list" where
  "makeRequest_loop w reqConfig currentURL redirectCount allBodies allHeaders tr =
     (case build_request w reqConfig currentURL of
        Inl err \<Rightarrow> (Inl err, tr)
      | Inr req \<Rightarrow>
          (case client_Do w tr req of
             DoFailed err \<Rightarrow> (Inl err, tr @ [Exchange req (DoFailed err)])
           | ReadFailed err \<Rightarrow> (Inl err, tr @ [Exchange req (ReadFailed err)])
           | Responded resp \<Rightarrow>
               (let allHeaders' = collect_headers (resp_Header resp) allHeaders;
                    allBodies' = (if length (resp_Body resp) > 0 then allBodies @ [resp_Body resp]
                                  else allBodies);
                    tr' = tr @ [Exchange req (Responded resp)]
                in case next_hop w currentURL redirectCount resp of
                     Some redirectURL \<Rightarrow>
                       makeRequest_loop w reqConfig redirectURL (redirectCount + 1)
                         allBodies' allHeaders' tr'
                   | None \<Rightarrow>
                       (Inr \<lparr>Body = Join allBodies' newline, Headers = allHeaders',
                            StatusCode = 200\<rparr>, tr'))))"
  by pat_completeness auto
termination
  by (relation "measure (\<lambda>(w, reqConfig, currentURL, redirectCount, rest). MaxRedirects - redirectCount)")
     (auto dest: next_hop_bound)

declare makeRequest_loop.simps [simp del]

definition makeRequest ::
  "world \<Rightarrow> string \<Rightarrow> RequestConfig option \<Rightarrow> event list \<Rightarrow> (error + DetectionContext) \<times> event list" where
  "makeRequest w url reqConfig tr = makeRequest_loop w reqConfig url 0 [] [] (tr @ [Attempt url])"

definition retry_annotation :: string where
  "retry_annotation = ''failed after 1 retries: ''"

function requestWithRetry_loop ::
  "world \<Rightarrow> string \<Rightarrow> RequestConfig option \<Rightarrow> nat \<Rightarrow> error option \<Rightarrow> event list
     \<Rightarrow> (error + DetectionContext) \<times> event list" where
  "requestWithRetry_loop w url reqConfig retry lastErr tr =
     (if retry \<le> MaxRetries then
        (case makeRequest w url reqConfig tr of
           (Inr ctx, tr') \<Rightarrow> (Inr ctx, tr')
         | (Inl err, tr') \<Rightarrow>
             requestWithRetry_loop w url reqConfig (retry + 1) (Some err)
               (if retry < MaxRetries then tr' @ [Sleep (InitialBackoff * 2 ^ retry)] else tr'))
      else (case lastErr of
              Some err \<Rightarrow> (Inl (Wrap retry_annotation err), tr)
            | None \<Rightarrow> (Inl (Err (retry_annotation @ ''%!w(<nil>)'')), tr)))"
  by pat_completeness auto
termination
  by (relation "measure (\<lambda>(w, url, reqConfig, retry, rest). Suc MaxRetries - retry)") auto

declare requestWithRetry_loop.simps [simp del]

definition requestWithRetry ::
  "world \<Rightarrow> string \<Rightarrow> RequestConfig option \<Rightarrow> event list \<Rightarrow> (error + DetectionContext) \<times> event list" where
  "requestWithRetry w url reqConfig tr = requestWithRetry_loop w url reqConfig 0 None tr"

section \<open>Rules and results (the data declarations)\<close>

record Technology =
  Name :: string
  Version :: string

record PathProbe =
  probe_Path :: string
  probe_Request :: "RequestConfig option"
  probe_Detect :: "(string \<times> json) list"
  probe_ExtractVersion :: "(string \<times> string) list list"

record BrowserProbe =
  bp_Path :: string
  Detection :: string
  bp_Version :: string

record Fingerprint =
  Cats :: "int list"
  Implies :: "string list"
  Paths :: "PathProbe list"
  Browser :: "BrowserProbe list"
  Description :: string
  Website :: string
  Icon :: string
  CPE :: string

text \<open>
  The rule store \<open>map[string]Fingerprint\<close> is an association list, in the order in
  which \<open>range\<close> visits it; a lookup is \<open>map_of\<close>.

  The result map is a \<open>map[string]*Technology\<close>: a map from names to addresses, and a
  heap that holds the \<open>Technology\<close> values and the next free address. Two maps that hold
  the same address share the value behind it.
\<close>

type_synonym fingerprints = "(string \<times> Fingerprint) list"

type_synonym results = "string \<rightharpoonup> nat"

record heap =
  cells :: "nat \<Rightarrow> Technology"
  next_free :: nat

definition new_Technology :: "Technology \<Rightarrow> heap \<Rightarrow> nat \<times> heap" where
  "new_Technology t h =
     (next_free h, h\<lparr>cells := (cells h)(next_free h := t), next_free := Suc (next_free h)\<rparr>)"

definition HasDetectionCapability :: "BrowserProbe \<Rightarrow> bool" where
  "HasDetectionCapability bp = (Detection bp \<noteq> [])"

definition HasVersionCapability :: "BrowserProbe \<Rightarrow> bool" where
  "HasVersionCapability bp = (bp_Version bp \<noteq> [])"

section \<open>Fallback version extraction (query.go)\<close>

text \<open>The inner loop of \<open>ExtractVersion\<close> over the fields of one rule: \<open>Some\<close> is its
  \<open>return\<close>.\<close>

fun extract_rule :: "regex_engine \<Rightarrow> (string \<times> string) list \<Rightarrow> DetectionContext \<Rightarrow> string option" where
  "extract_rule rx [] ctx = None"
| "extract_rule rx ((field, pattern) # rest) ctx =
     (let fieldValue = getFieldValue field ctx in
      if fieldValue = [] then extract_rule rx rest ctx
      else (case rx pattern of
              None \<Rightarrow> extract_rule rx rest ctx
            | Some re \<Rightarrow>
                (let matches = re fieldValue in
                 if length matches > 1 then Some (matches ! 1) else extract_rule rx rest ctx)))"

fun ExtractVersion :: "regex_engine \<Rightarrow> (string \<times> string) list list \<Rightarrow> DetectionContext \<Rightarrow> string" where
  "ExtractVersion rx [] ctx = []"
| "ExtractVersion rx (rule # rules) ctx =
     (case extract_rule rx rule ctx of Some v \<Rightarrow> v | None \<Rightarrow> ExtractVersion rx rules ctx)"

section \<open>Path classification (http_detector.go)\<close>

record PathClassification =
  pc_Path :: string
  RequestConf :: "RequestConfig option"
  Technologies :: "(string \<times> PathProbe list) list"

text \<open>\<open>m[techName] = append(m[techName], probe)\<close> on the map of one classification.\<close>

fun append_probe :: "string \<Rightarrow> PathProbe \<Rightarrow> (string \<times> PathProbe list) list \<Rightarrow> (string \<times> PathProbe list) list" where
  "append_probe techName probe [] = [(techName, [probe])]"
| "append_probe techName probe ((t, ps) # m) =
     (if t = techName then (t, ps @ [probe]) # m else (t, ps) # append_probe techName probe m)"

text \<open>
  The body of the inner loop of \<open>ClassifyByPath\<close> on \<open>pathMap\<close>, whose key is
  \<open>probe.Path\<close>: a path met for the first time gets a new classification with the request
  configuration of this probe; then the probe is appended under its technology.
\<close>

fun pathMap_add :: "string \<Rightarrow> PathProbe \<Rightarrow> PathClassification list \<Rightarrow> PathClassification list" where
  "pathMap_add techName probe [] =
     [\<lparr>pc_Path = probe_Path probe, RequestConf = probe_Request probe,
       Technologies = [(techName, [probe])]\<rparr>]"
| "pathMap_add techName probe (pc # pathMap) =
     (if pc_Path pc = probe_Path probe
      then pc\<lparr>Technologies := append_probe techName probe (Technologies pc)\<rparr> # pathMap
      else pc # pathMap_add techName probe pathMap)"

text \<open>
  \<open>ClassifyByPath\<close>. The slice it returns lists the classifications in the order in which
  \<open>range\<close> visits \<open>pathMap\<close>; here that is the order in which the paths were first met.
\<close>

definition ClassifyByPath :: "fingerprints \<Rightarrow> PathClassification list" where
  "ClassifyByPath fps =
     fold (\<lambda>(techName, fp) pathMap. fold (pathMap_add techName) (Paths fp) pathMap) fps []"

section \<open>HTTP detection (http_detector.go)\<close>

text \<open>The loop over the probes of one technology: \<open>Some version\<close> at the first probe that
  detects (the \<open>break\<close>), \<open>None\<close> when none does.\<close>

fun probe_loop :: "regex_engine \<Rightarrow> DetectionContext \<Rightarrow> PathProbe list \<Rightarrow> string option" where
  "probe_loop rx ctx [] = None"
| "probe_loop rx ctx (probe # probes) =
     (case Evaluate rx (probe_Detect probe) ctx of
        (detected, version) \<Rightarrow>
          if detected
          then Some (if version = [] \<and> length (probe_ExtractVersion probe) > 0
                     then ExtractVersion rx (probe_ExtractVersion probe) ctx
                     else version)
          else probe_loop rx ctx probes)"

fun tech_loop ::
  "regex_engine \<Rightarrow> DetectionContext \<Rightarrow> (string \<times> PathProbe list) list \<Rightarrow> results \<Rightarrow> heap \<Rightarrow> results \<times> heap" where
  "tech_loop rx ctx [] res h = (res, h)"
| "tech_loop rx ctx ((techName, probes) # rest) res h =
     (case probe_loop rx ctx probes of
        None \<Rightarrow> tech_loop rx ctx rest res h
      | Some version \<Rightarrow>
          (case new_Technology \<lparr>Name = techName, Version = version\<rparr> h of
             (a, h') \<Rightarrow> tech_loop rx ctx rest (res(techName \<mapsto> a)) h'))"

text \<open>The loop that runs on a fatal network error, over all the classifications.\<close>

fun mark_remaining :: "PathClassification list \<Rightarrow> string list \<Rightarrow> string list" where
  "mark_remaining [] failedPaths = failedPaths"
| "mark_remaining (remainingClass # rest) failedPaths =
     mark_remaining rest
       (if pc_Path remainingClass \<in> set failedPaths then failedPaths
        else failedPaths @ [pc_Path remainingClass])"

fun DetectHTTP_loop ::
  "world \<Rightarrow> string \<Rightarrow> PathClassification list \<Rightarrow> PathClassification list \<Rightarrow> results \<Rightarrow> string list
     \<Rightarrow> heap \<Rightarrow> event list \<Rightarrow> results \<times> string list \<times> heap \<times> event list" where
  "DetectHTTP_loop w baseURL pathClassifications [] res failedPaths h tr = (res, failedPaths, h, tr)"
| "DetectHTTP_loop w baseURL pathClassifications (classification # rest) res failedPaths h tr =
     (let fullURL = TrimSuffix baseURL ''/'' @ pc_Path classification in
      case requestWithRetry w fullURL (RequestConf classification) tr of
        (Inl err, tr') \<Rightarrow>
          (let failedPaths' = failedPaths @ [pc_Path classification];
               errStr = error_string err
           in if Contains errStr ''no such host'' \<or> Contains errStr ''network is unreachable''
              then (res, mark_remaining pathClassifications failedPaths', h, tr')
              else DetectHTTP_loop w baseURL pathClassifications rest res failedPaths' h tr')
      | (Inr ctx, tr') \<Rightarrow>
          (case tech_loop (regex w) ctx (Technologies classification) res h of
             (res', h') \<Rightarrow> DetectHTTP_loop w baseURL pathClassifications rest res' failedPaths h' tr'))"

definition DetectHTTP ::
  "world \<Rightarrow> string \<Rightarrow> fingerprints \<Rightarrow> heap \<Rightarrow> event list \<Rightarrow> results \<times> string list \<times> heap \<times> event list" where
  "DetectHTTP w baseURL fps h tr =
     (let pathClassifications = ClassifyByPath fps in
      DetectHTTP_loop w baseURL pathClassifications pathClassifications Map.empty [] h tr)"

section \<open>Implied technologies (detector.go)\<close>

text \<open>
  The loop over \<open>fp.Implies\<close> for one detected technology, on the result map, the heap
  and the flag \<open>changed\<close>.
\<close>

fun add_implied :: "string list \<Rightarrow> results \<times> heap \<times> bool \<Rightarrow> results \<times> heap \<times> bool" where
  "add_implied [] s = s"
| "add_implied (implied # rest) (res, h, changed) =
     (case res implied of
        Some a \<Rightarrow> add_implied rest (res, h, changed)
      | None \<Rightarrow>
          (case new_Technology \<lparr>Name = implied, Version = []\<rparr> h of
             (a, h') \<Rightarrow> add_implied rest (res(implied \<mapsto> a), h', True)))"

definition visit :: "fingerprints \<Rightarrow> string \<Rightarrow> results \<times> heap \<times> bool \<Rightarrow> results \<times> heap \<times> bool" where
  "visit fps techName s =
     (case map_of fps techName of None \<Rightarrow> s | Some fp \<Rightarrow> add_implied (Implies fp) s)"

text \<open>
  One pass \<open>for techName := range results\<close>, during which the body inserts into
  \<open>results\<close>. Go visits every key that was in the map when the loop began exactly once,
  and each key inserted during the loop once or not at all, in an order it does not
  specify. \<open>range_pass fps K0 V s s'\<close>: with the keys \<open>K0\<close> present at the beginning and the
  keys \<open>V\<close> visited so far, the pass can go from state \<open>s\<close> to the final state \<open>s'\<close>.
\<close>

inductive range_pass ::
  "fingerprints \<Rightarrow> string set \<Rightarrow> string set \<Rightarrow> results \<times> heap \<times> bool \<Rightarrow> results \<times> heap \<times> bool \<Rightarrow> bool"
  for fps :: fingerprints and K0 :: "string set" where
  pass_done: "K0 \<subseteq> V \<Longrightarrow> range_pass fps K0 V s s"
| pass_step: "techName \<in> dom (fst s) \<Longrightarrow> techName \<notin> V
     \<Longrightarrow> range_pass fps K0 (insert techName V) (visit fps techName s) s'
     \<Longrightarrow> range_pass fps K0 V s s'"

text \<open>\<open>addImpliedTechnologies\<close>: passes are repeated until one leaves \<open>changed\<close> false.\<close>

inductive addImpliedTechnologies ::
  "fingerprints \<Rightarrow> results \<times> heap \<Rightarrow> results \<times> heap \<Rightarrow> bool"
  for fps :: fingerprints where
  closure_stop: "range_pass fps (dom res) {} (res, h, False) (res', h', False)
     \<Longrightarrow> addImpliedTechnologies fps (res, h) (res', h')"
| closure_again: "range_pass fps (dom res) {} (res, h, False) (res1, h1, True)
     \<Longrightarrow> addImpliedTechnologies fps (res1, h1) (res', h')
     \<Longrightarrow> addImpliedTechnologies fps (res, h) (res', h')"

section \<open>Browser detection (the augmentation stage)\<close>

text \<open>
  The headless browser is outside the repository: what navigating to a URL, waiting for
  the page and evaluating a script on the page at a URL give. \<open>False\<close> and \<open>None\<close> are
  the errors of \<open>chromedp.Run\<close>.
\<close>

record browser =
  navigate :: "string \<Rightarrow> bool"
  wait_ready :: "string \<Rightarrow> bool"
  evaluate_bool :: "string \<Rightarrow> string \<Rightarrow> bool option"
  evaluate_string :: "string \<Rightarrow> string \<Rightarrow> string option"

record BrowserPathClassification =
  bpc_Path :: string
  bpc_Technologies :: "(string \<times> BrowserProbe list) list"

fun append_browser_probe ::
  "string \<Rightarrow> BrowserProbe \<Rightarrow> (string \<times> BrowserProbe list) list \<Rightarrow> (string \<times> BrowserProbe list) list" where
  "append_browser_probe techName probe [] = [(techName, [probe])]"
| "append_browser_probe techName probe ((t, ps) # m) =
     (if t = techName then (t, ps @ [probe]) # m
      else (t, ps) # append_browser_probe techName probe m)"

fun browser_pathMap_add ::
  "string \<Rightarrow> BrowserProbe \<Rightarrow> BrowserPathClassification list \<Rightarrow> BrowserPathClassification list" where
  "browser_pathMap_add techName probe [] =
     [\<lparr>bpc_Path = bp_Path probe, bpc_Technologies = [(techName, [probe])]\<rparr>]"
| "browser_pathMap_add techName probe (pc # pathMap) =
     (if bpc_Path pc = bp_Path probe
      then pc\<lparr>bpc_Technologies := append_browser_probe techName probe (bpc_Technologies pc)\<rparr> # pathMap
      else pc # browser_pathMap_add techName probe pathMap)"

definition ClassifyBrowserByPath :: "fingerprints \<Rightarrow> BrowserPathClassification list" where
  "ClassifyBrowserByPath fps =
     fold (\<lambda>(techName, fp) pathMap. fold (browser_pathMap_add techName) (Browser fp) pathMap) fps []"

definition ShouldRunBrowserDetection :: "string \<Rightarrow> results \<Rightarrow> heap \<Rightarrow> BrowserProbe \<Rightarrow> bool" where
  "ShouldRunBrowserDetection techName res h probe =
     (case res techName of
        None \<Rightarrow> HasDetectionCapability probe
      | Some tech \<Rightarrow>
          (if Version (cells h tech) \<noteq> [] then False else HasVersionCapability probe))"

definition wrap_script :: "string \<Rightarrow> string" where
  "wrap_script body = ''(function(){ '' @ body @ '' })()''"

text \<open>\<open>results[techName].Version = version\<close>: a write through the pointer held in the map.\<close>

definition set_Version :: "nat \<Rightarrow> string \<Rightarrow> heap \<Rightarrow> heap" where
  "set_Version a version h = h\<lparr>cells := (cells h)(a := (cells h a)\<lparr>Version := version\<rparr>)\<rparr>"

text \<open>The loop over the probes of one technology on the page at \<open>fullURL\<close>.\<close>

fun browser_probe_loop ::
  "browser \<Rightarrow> string \<Rightarrow> string \<Rightarrow> BrowserProbe list \<Rightarrow> results \<Rightarrow> heap \<Rightarrow> results \<times> heap" where
  "browser_probe_loop b fullURL techName [] res h = (res, h)"
| "browser_probe_loop b fullURL techName (probe # probes) res h =
     (if \<not> ShouldRunBrowserDetection techName res h probe
      then browser_probe_loop b fullURL techName probes res h
      else
        (let detected =
               (if Detection probe \<noteq> []
                then (case evaluate_bool b fullURL (wrap_script (Detection probe)) of
                        Some result \<Rightarrow> result
                      | None \<Rightarrow> False)
                else False);
             version =
               (if detected \<or> (res techName \<noteq> None \<and> bp_Version probe \<noteq> [])
                then (if bp_Version probe \<noteq> []
                      then (case evaluate_string b fullURL (wrap_script (bp_Version probe)) of
                              Some versionResult \<Rightarrow> versionResult
                            | None \<Rightarrow> [])
                      else [])
                else [])
         in if detected then
              (case res techName of
                 None \<Rightarrow>
                   (case new_Technology \<lparr>Name = techName, Version = version\<rparr> h of
                      (a, h') \<Rightarrow> (res(techName \<mapsto> a), h'))
               | Some a \<Rightarrow>
                   (if version \<noteq> [] \<and> Version (cells h a) = [] then (res, set_Version a version h)
                    else (res, h)))
            else (case res techName of
                    Some a \<Rightarrow>
                      (if version \<noteq> [] \<and> Version (cells h a) = [] then (res, set_Version a version h)
                       else browser_probe_loop b fullURL techName probes res h)
                  | None \<Rightarrow> browser_probe_loop b fullURL techName probes res h)))"

fun browser_tech_loop ::
  "browser \<Rightarrow> string \<Rightarrow> (string \<times> BrowserProbe list) list \<Rightarrow> results \<Rightarrow> heap \<Rightarrow> results \<times> heap" where
  "browser_tech_loop b fullURL [] res h = (res, h)"
| "browser_tech_loop b fullURL ((techName, probes) # rest) res h =
     (case browser_probe_loop b fullURL techName probes res h of
        (res', h') \<Rightarrow> browser_tech_loop b fullURL rest res' h')"

fun browser_path_loop ::
  "browser \<Rightarrow> string \<Rightarrow> BrowserPathClassification list \<Rightarrow> results \<Rightarrow> heap \<Rightarrow> results \<times> heap" where
  "browser_path_loop b baseURL [] res h = (res, h)"
| "browser_path_loop b baseURL (classification # rest) res h =
     (let fullURL = TrimSuffix baseURL ''/'' @ bpc_Path classification in
      if \<not> navigate b fullURL then browser_path_loop b baseURL rest res h
      else if \<not> wait_ready b fullURL then browser_path_loop b baseURL rest res h
      else (case browser_tech_loop b fullURL (bpc_Technologies classification) res h of
              (res', h') \<Rightarrow> browser_path_loop b baseURL rest res' h'))"

text \<open>
  \<open>DetectBrowser\<close>. The new map \<open>results\<close> gets every binding of \<open>httpResults\<close>: the same
  names with the same addresses. The error it returns is \<open>nil\<close> on every path.
\<close>

definition DetectBrowser ::
  "browser \<Rightarrow> string \<Rightarrow> fingerprints \<Rightarrow> results \<Rightarrow> heap \<Rightarrow> (results \<times> error option) \<times> heap" where
  "DetectBrowser b baseURL fps httpResults h =
     (let res = (\<lambda>k. httpResults k);
          pathClassifications = ClassifyBrowserByPath fps
      in if length pathClassifications = 0 then ((res, None), h)
         else (case browser_path_loop b baseURL pathClassifications res h of
                 (res', h') \<Rightarrow> ((res', None), h')))"

section \<open>The detection engine (detector.go)\<close>

text \<open>
  \<open>Detect\<close>, up to the result map it converts into a slice: the HTTP stage, the browser
  stage when asked for (its results are dropped for the HTTP results when it returns an
  error), then the implied technologies.
\<close>

inductive Detect ::
  "world \<Rightarrow> browser \<Rightarrow> fingerprints \<Rightarrow> string \<Rightarrow> bool \<Rightarrow> heap \<Rightarrow> event list
     \<Rightarrow> results \<times> string list \<times> heap \<times> event list \<Rightarrow> bool"
  for w :: world and b :: browser and fps :: fingerprints where
  detect_http: "DetectHTTP w url fps h tr = (httpResults, failedPaths, h1, tr1)
     \<Longrightarrow> \<not> useBrowser
     \<Longrightarrow> addImpliedTechnologies fps (httpResults, h1) (finalResults, h2)
     \<Longrightarrow> Detect w b fps url useBrowser h tr (finalResults, failedPaths, h2, tr1)"
| detect_browser: "DetectHTTP w url fps h tr = (httpResults, failedPaths, h1, tr1)
     \<Longrightarrow> useBrowser
     \<Longrightarrow> DetectBrowser b url fps httpResults h1 = ((browserResults, err), h2)
     \<Longrightarrow> addImpliedTechnologies fps
           (if err \<noteq> None then httpResults else browserResults, h2) (finalResults, h3)
     \<Longrightarrow> Detect w b fps url useBrowser h tr (finalResults, failedPaths, h3, tr1)"
section \<open>Vocabulary of the statements about the fetch pipeline\<close>

text \<open>
  The responses received in a stretch of the trace, in the order of their arrival, and the
  number of entries into \<open>makeRequest\<close> in it.
\<close>

fun responses :: "event list \<Rightarrow> Response list" where
  "responses [] = []"
| "responses (Exchange req (Responded r) # es) = r # responses es"
| "responses (e # es) = responses es"

fun attempts :: "event list \<Rightarrow> nat" where
  "attempts [] = 0"
| "attempts (Attempt u # es) = Suc (attempts es)"
| "attempts (e # es) = attempts es"

text \<open>
  What the claim about redirect chains speaks of, in its own words: the value a hop carries
  for a header name, compared without regard to case (a name with no value carries none);
  the value of the earliest hop that carries the name; and the values a context holds for
  a name. \<open>canonical_names\<close> is what \<open>net/http\<close> guarantees of the responses it hands
  out: header names are in canonical form, so names that differ only in case are the same
  key, and a header map holds a key once.
\<close>

fun hop_header :: "string \<Rightarrow> (string \<times> string list) list \<Rightarrow> string option" where
  "hop_header name [] = None"
| "hop_header name ((k, vs) # h) =
     (case vs of
        v # _ \<Rightarrow> (if EqualFold k name then Some v else hop_header name h)
      | [] \<Rightarrow> hop_header name h)"

fun first_seen :: "string \<Rightarrow> Response list \<Rightarrow> string option" where
  "first_seen name [] = None"
| "first_seen name (r # rs) =
     (case hop_header name (resp_Header r) of Some v \<Rightarrow> Some v | None \<Rightarrow> first_seen name rs)"

definition header_values :: "string \<Rightarrow> (string \<times> string) list \<Rightarrow> string list" where
  "header_values name hs = map snd (filter (\<lambda>(k, v). EqualFold k name) hs)"

definition header_names :: "Response list \<Rightarrow> string set" where
  "header_names rs = (\<Union>r \<in> set rs. fst ` set (resp_Header r))"

definition canonical_names :: "Response list \<Rightarrow> bool" where
  "canonical_names rs =
     ((\<forall>k1 \<in> header_names rs. \<forall>k2 \<in> header_names rs. EqualFold k1 k2 \<longrightarrow> k1 = k2)
      \<and> (\<forall>r \<in> set rs. distinct (map fst (resp_Header r))))"

text \<open>The same with exact keys, and the headers accumulated over a list of responses.\<close>

fun first_exact :: "string \<Rightarrow> Response list \<Rightarrow> string option" where
  "first_exact k [] = None"
| "first_exact k (r # rs) =
     (case map_of (resp_Header r) k of Some (v # vs) \<Rightarrow> Some v | _ \<Rightarrow> first_exact k rs)"

definition accumulate :: "(string \<times> string) list \<Rightarrow> Response list \<Rightarrow> (string \<times> string) list" where
  "accumulate hdrs rs = foldl (\<lambda>h r. collect_headers (resp_Header r) h) hdrs rs"

section \<open>Concrete runs\<close>

text \<open>
  A server on host \<open>h\<close> that redirects \<open>/a\<close> to \<open>/b\<close> and \<open>/b\<close> to \<open>/c\<close>; the
  second response has no body and the last one has status 404. And a network on which
  every request times out.
\<close>

definition get_request :: "string \<Rightarrow> Request" where
  "get_request url = \<lparr>req_Method = ''GET'', req_URL = url, req_Header = []\<rparr>"

definition resp_a :: Response where
  "resp_a = \<lparr>resp_StatusCode = 302,
             resp_Header = [(''Location'', [''/b'']), (''Server'', [''one''])],
             resp_Body = ''alpha''\<rparr>"

definition resp_b :: Response where
  "resp_b = \<lparr>resp_StatusCode = 301,
             resp_Header = [(''Location'', [''/c'']), (''Server'', [''two'']), (''X-Hop'', [''b''])],
             resp_Body = []\<rparr>"

definition resp_c :: Response where
  "resp_c = \<lparr>resp_StatusCode = 404,
             resp_Header = [(''Server'', [''three'']), (''X-Hop'', [''c''])],
             resp_Body = ''gamma''\<rparr>"

definition chain_world :: world where
  "chain_world =
     \<lparr>regex = (\<lambda>p. None),
      NewRequest_error = (\<lambda>method url. None),
      CanonicalHeaderKey = (\<lambda>k. k),
      client_Do = (\<lambda>tr req.
        if req_URL req = ''http://h/a'' then Responded resp_a
        else if req_URL req = ''http://h/b'' then Responded resp_b
        else if req_URL req = ''http://h/c'' then Responded resp_c
        else DoFailed (Err ''connection refused''))\<rparr>"

definition chain_trace :: "event list" where
  "chain_trace =
     [Attempt ''http://h/a'',
      Exchange (get_request ''http://h/a'') (Responded resp_a),
      Exchange (get_request ''http://h/b'') (Responded resp_b),
      Exchange (get_request ''http://h/c'') (Responded resp_c)]"

definition chain_context :: DetectionContext where
  "chain_context =
     \<lparr>Body = ''alpha'' @ newline @ ''gamma'',
      Headers = [(''Location'', ''/b''), (''Server'', ''one''), (''X-Hop'', ''b'')],
      StatusCode = 200\<rparr>"

definition dead_world :: world where
  "dead_world =
     \<lparr>regex = (\<lambda>p. None),
      NewRequest_error = (\<lambda>method url. None),
      CanonicalHeaderKey = (\<lambda>k. k),
      client_Do = (\<lambda>tr req. DoFailed (Err ''context deadline exceeded''))\<rparr>"
section \<open>Properties of the query evaluator\<close>

text \<open>
  C1. A field condition on a field that resolves to the empty string is false for every
  operator, and the claim excepts \<open>$exists\<close> with operand \<open>false\<close>, which is to be true on
  an absent field. \<open>evaluateField\<close> returns before it looks at the operator, so the
  comparison \<open>exists == shouldExist\<close> of \<open>evaluateExists\<close> is never reached with an
  empty value: on a response without the header \<open>X-Powered-By\<close> the condition
  \<open>{"headers.x-powered-by": {"$exists": false}}\<close> does not match.
\<close>

theorem exists_false_on_absent_header_unmatched:
  "Evaluate rx [(''headers.x-powered-by'', JObj [(''$exists'', JBool False)])]
     \<lparr>Body = ''hello'', Headers = [(''Server'', ''nginx'')], StatusCode = 200\<rparr> = (False, [])
   \<and> evaluateExists [] (JBool False) = (True, [])"
  by (simp add: Evaluate_def evaluateField_def getFieldValue_def Split.simps EqualFold_def
      lower_ascii_def evaluateExists_def)

text \<open>
  C7. \<open>AND\<close> of the empty list matches with the empty version, and \<open>OR\<close> of the empty
  list does not match: for \<open>evaluateAnd\<close> and \<open>evaluateOr\<close> on the empty array, and for
  the queries \<open>{"$and": []}\<close> and \<open>{"$or": []}\<close>, in every context.
\<close>

theorem empty_and_true_empty_or_false:
  "evaluateAnd rx (JArr []) ctx = (True, [])
   \<and> evaluateOr rx (JArr []) ctx = (False, [])
   \<and> Evaluate rx [(''$and'', JArr [])] ctx = (True, [])
   \<and> Evaluate rx [(''$or'', JArr [])] ctx = (False, [])"
  by (simp add: Evaluate_def)

section \<open>Properties of the fetch pipeline\<close>

subsection \<open>The trace and the result of one attempt\<close>

lemma responses_append: "responses (xs @ ys) = responses xs @ responses ys"
  by (induction xs rule: responses.induct) auto

lemma attempts_append: "attempts (xs @ ys) = attempts xs + attempts ys"
  by (induction xs rule: attempts.induct) auto

lemma makeRequest_loop_trace:
  "makeRequest_loop w cfg url n bodies hdrs tr = (res, tr')
   \<Longrightarrow> \<exists>new. tr' = tr @ new \<and> attempts new = 0"
proof (induction w cfg url n bodies hdrs tr rule: makeRequest_loop.induct)
  case (1 w reqConfig currentURL redirectCount allBodies allHeaders tr)
  show ?case
  proof (cases "build_request w reqConfig currentURL")
    case (Inl err)
    with "1.prems" show ?thesis by (simp add: makeRequest_loop.simps)
  next
    case (Inr req)
    show ?thesis
    proof (cases "client_Do w tr req")
      case (DoFailed err)
      with Inr "1.prems" show ?thesis by (auto simp: makeRequest_loop.simps)
    next
      case (ReadFailed err)
      with Inr "1.prems" show ?thesis by (auto simp: makeRequest_loop.simps)
    next
      case (Responded resp)
      show ?thesis
      proof (cases "next_hop w currentURL redirectCount resp")
        case None
        with Inr Responded "1.prems" show ?thesis
          by (auto simp: makeRequest_loop.simps Let_def)
      next
        case (Some redirectURL)
        with Inr Responded "1.prems"
        have "makeRequest_loop w reqConfig redirectURL (redirectCount + 1)
                (if length (resp_Body resp) > 0 then allBodies @ [resp_Body resp] else allBodies)
                (collect_headers (resp_Header resp) allHeaders)
                (tr @ [Exchange req (Responded resp)]) = (res, tr')"
          by (simp add: makeRequest_loop.simps Let_def)
        from "1.IH" [OF Inr Responded refl refl refl Some this]
        obtain new where "tr' = (tr @ [Exchange req (Responded resp)]) @ new" "attempts new = 0"
          by blast
        then show ?thesis by (intro exI [of _ "Exchange req (Responded resp) # new"]) simp
      qed
    qed
  qed
qed

lemma makeRequest_loop_ok:
  "makeRequest_loop w cfg url n bodies hdrs tr = (Inr ctx, tr')
   \<Longrightarrow> \<exists>new. tr' = tr @ new
         \<and> Body ctx = Join (bodies @ filter (\<lambda>b. b \<noteq> []) (map resp_Body (responses new))) newline
         \<and> Headers ctx = foldl (\<lambda>h r. collect_headers (resp_Header r) h) hdrs (responses new)
         \<and> StatusCode ctx = 200"
proof (induction w cfg url n bodies hdrs tr rule: makeRequest_loop.induct)
  case (1 w reqConfig currentURL redirectCount allBodies allHeaders tr)
  show ?case
  proof (cases "build_request w reqConfig currentURL")
    case (Inl err)
    with "1.prems" show ?thesis by (simp add: makeRequest_loop.simps)
  next
    case (Inr req)
    show ?thesis
    proof (cases "client_Do w tr req")
      case (DoFailed err)
      with Inr "1.prems" show ?thesis by (auto simp: makeRequest_loop.simps)
    next
      case (ReadFailed err)
      with Inr "1.prems" show ?thesis by (auto simp: makeRequest_loop.simps)
    next
      case (Responded resp)
      show ?thesis
      proof (cases "next_hop w currentURL redirectCount resp")
        case None
        with Inr Responded "1.prems" show ?thesis
          by (intro exI [of _ "[Exchange req (Responded resp)]"])
             (auto simp: makeRequest_loop.simps Let_def)
      next
        case (Some redirectURL)
        let ?b = "if length (resp_Body resp) > 0 then allBodies @ [resp_Body resp] else allBodies"
        let ?h = "collect_headers (resp_Header resp) allHeaders"
        let ?t = "tr @ [Exchange req (Responded resp)]"
        from Some Inr Responded "1.prems"
        have "makeRequest_loop w reqConfig redirectURL (redirectCount + 1) ?b ?h ?t = (Inr ctx, tr')"
          by (simp add: makeRequest_loop.simps Let_def)
        from "1.IH" [OF Inr Responded refl refl refl Some this]
        obtain new where new: "tr' = ?t @ new"
          "Body ctx = Join (?b @ filter (\<lambda>b. b \<noteq> []) (map resp_Body (responses new))) newline"
          "Headers ctx = foldl (\<lambda>h r. collect_headers (resp_Header r) h) ?h (responses new)"
          "StatusCode ctx = 200"
          by blast
        then show ?thesis
          by (intro exI [of _ "Exchange req (Responded resp) # new"]) auto
      qed
    qed
  qed
qed

lemma makeRequest_trace:
  assumes "makeRequest w url cfg tr = (res, tr')"
  shows "\<exists>new. tr' = tr @ new \<and> attempts new = 1"
proof -
  from assms have "makeRequest_loop w cfg url 0 [] [] (tr @ [Attempt url]) = (res, tr')"
    by (simp add: makeRequest_def)
  from makeRequest_loop_trace [OF this]
  obtain new where "tr' = (tr @ [Attempt url]) @ new" "attempts new = 0" by blast
  then show ?thesis by (intro exI [of _ "Attempt url # new"]) simp
qed

subsection \<open>Accumulated headers\<close>

lemma map_of_collect_headers:
  "distinct (map fst h) \<Longrightarrow>
   map_of (collect_headers h allHeaders) k =
     (case map_of allHeaders k of
        Some v \<Rightarrow> Some v
      | None \<Rightarrow> (case map_of h k of Some (v # vs) \<Rightarrow> Some v | _ \<Rightarrow> None))"
proof (induction h arbitrary: allHeaders k)
  case Nil
  then show ?case by (simp split: option.splits)
next
  case (Cons a h)
  obtain k' vs' where a: "a = (k', vs')" by (cases a)
  from Cons.prems a have d: "distinct (map fst h)" and nk: "map_of h k' = None"
    by (auto simp: map_of_eq_None_iff)
  note IH = Cons.IH [OF d]
  show ?case
  proof (cases vs')
    case Nil
    show ?thesis unfolding a Nil using nk
      by (simp add: IH split: option.splits list.splits)
  next
    case (Cons v0 vs0)
    show ?thesis
    proof (cases "map_of allHeaders k'")
      case None
      show ?thesis unfolding a Cons using nk None
        by (simp add: IH map_add_def split: option.splits list.splits)
    next
      case (Some x)
      show ?thesis unfolding a Cons using nk Some
        by (simp add: IH split: option.splits list.splits)
    qed
  qed
qed

lemma distinct_collect_headers:
  "distinct (map fst allHeaders) \<Longrightarrow> distinct (map fst (collect_headers h allHeaders))"
proof (induction h arbitrary: allHeaders)
  case Nil
  then show ?case by simp
next
  case (Cons a h)
  obtain k' vs' where a: "a = (k', vs')" by (cases a)
  let ?all = "case vs' of [] \<Rightarrow> allHeaders
              | v0 # vs \<Rightarrow> (if map_of allHeaders k' = None then allHeaders @ [(k', v0)] else allHeaders)"
  have "distinct (map fst ?all)"
    using Cons.prems by (simp add: map_of_eq_None_iff split: list.splits)
  then have "distinct (map fst (collect_headers h ?all))" by (rule Cons.IH)
  with a show ?case by simp
qed

lemma keys_collect_headers:
  "fst ` set (collect_headers h allHeaders) \<subseteq> fst ` set allHeaders \<union> fst ` set h"
proof (induction h arbitrary: allHeaders)
  case Nil
  then show ?case by simp
next
  case (Cons a h)
  obtain k' vs' where a: "a = (k', vs')" by (cases a)
  let ?all = "case vs' of [] \<Rightarrow> allHeaders
              | v0 # vs \<Rightarrow> (if map_of allHeaders k' = None then allHeaders @ [(k', v0)] else allHeaders)"
  have "fst ` set ?all \<subseteq> fst ` set allHeaders \<union> {k'}"
    by (simp split: list.splits) blast
  moreover have "fst ` set (collect_headers h ?all) \<subseteq> fst ` set ?all \<union> fst ` set h"
    by (rule Cons.IH)
  ultimately have "fst ` set (collect_headers h ?all) \<subseteq> fst ` set allHeaders \<union> {k'} \<union> fst ` set h"
    by blast
  with a show ?case by auto
qed

lemma accumulate_simps [simp]:
  "accumulate hdrs [] = hdrs"
  "accumulate hdrs (r # rs) = accumulate (collect_headers (resp_Header r) hdrs) rs"
  by (simp_all add: accumulate_def)

lemma distinct_accumulate:
  "distinct (map fst hdrs) \<Longrightarrow> distinct (map fst (accumulate hdrs rs))"
  by (induction rs arbitrary: hdrs) (auto intro: distinct_collect_headers)

lemma keys_accumulate:
  "fst ` set (accumulate hdrs rs) \<subseteq> fst ` set hdrs \<union> header_names rs"
proof (induction rs arbitrary: hdrs)
  case Nil
  then show ?case by simp
next
  case (Cons r rs)
  from Cons.IH [of "collect_headers (resp_Header r) hdrs"] keys_collect_headers [of "resp_Header r" hdrs]
  show ?case by (auto simp: header_names_def)
qed

lemma map_of_accumulate:
  "\<forall>r \<in> set rs. distinct (map fst (resp_Header r)) \<Longrightarrow>
   map_of (accumulate hdrs rs) k =
     (case map_of hdrs k of Some v \<Rightarrow> Some v | None \<Rightarrow> first_exact k rs)"
proof (induction rs arbitrary: hdrs)
  case Nil
  then show ?case by (simp split: option.splits)
next
  case (Cons r rs)
  then have d: "distinct (map fst (resp_Header r))" and rest: "\<forall>r \<in> set rs. distinct (map fst (resp_Header r))"
    by auto
  show ?case
    by (simp add: Cons.IH [OF rest] map_of_collect_headers [OF d] split: option.splits list.splits)
qed

lemma EqualFold_trans: "EqualFold a c \<Longrightarrow> EqualFold b c \<Longrightarrow> EqualFold a b"
  by (simp add: EqualFold_def)

lemma EqualFold_refl: "EqualFold a a"
  by (simp add: EqualFold_def)

lemma header_values_Nil: "header_values name [] = []"
  by (simp add: header_values_def)

lemma header_values_Cons:
  "header_values name ((k, v) # xs) =
     (if EqualFold k name then v # header_values name xs else header_values name xs)"
  by (simp add: header_values_def)

lemma header_values_unique:
  "distinct (map fst xs) \<Longrightarrow> \<forall>k' \<in> fst ` set xs. EqualFold k' name \<longrightarrow> k' = k \<Longrightarrow> EqualFold k name \<Longrightarrow>
   header_values name xs = (case map_of xs k of Some v \<Rightarrow> [v] | None \<Rightarrow> [])"
proof (induction xs)
  case Nil
  then show ?case by (simp add: header_values_Nil)
next
  case (Cons a xs)
  obtain k' v' where a: "a = (k', v')" by (cases a)
  from Cons.prems have d: "distinct (map fst xs)"
    and u: "\<forall>k' \<in> fst ` set xs. EqualFold k' name \<longrightarrow> k' = k"
    by simp_all
  have IH: "header_values name xs = (case map_of xs k of Some v \<Rightarrow> [v] | None \<Rightarrow> [])"
    by (rule Cons.IH [OF d u Cons.prems(3)])
  show ?case
  proof (cases "k' = k")
    case True
    from Cons.prems(1) a True have "k \<notin> fst ` set xs" by simp
    then have n: "map_of xs k = None" by (simp add: map_of_eq_None_iff)
    have "header_values name xs = []" using IH n by simp
    then show ?thesis unfolding a True using Cons.prems(3)
      by (simp add: header_values_Cons)
  next
    case False
    from Cons.prems(2) a False have "\<not> EqualFold k' name" by simp
    then show ?thesis unfolding a using IH False
      by (simp add: header_values_Cons)
  qed
qed

lemma header_values_none:
  "\<forall>k' \<in> fst ` set xs. \<not> EqualFold k' name \<Longrightarrow> header_values name xs = []"
proof (induction xs)
  case Nil
  then show ?case by (simp add: header_values_Nil)
next
  case (Cons a xs)
  obtain k' v' where a: "a = (k', v')" by (cases a)
  from Cons.prems a have "\<not> EqualFold k' name" by simp
  moreover from Cons.prems have "header_values name xs = []" by (intro Cons.IH) simp
  ultimately show ?case unfolding a by (simp add: header_values_Cons)
qed

lemma hop_header_unique:
  "distinct (map fst h) \<Longrightarrow> \<forall>k' \<in> fst ` set h. EqualFold k' name \<longrightarrow> k' = k \<Longrightarrow> EqualFold k name \<Longrightarrow>
   hop_header name h = (case map_of h k of Some (v # vs) \<Rightarrow> Some v | _ \<Rightarrow> None)"
proof (induction h)
  case Nil
  then show ?case by simp
next
  case (Cons a h)
  obtain k' vs' where a: "a = (k', vs')" by (cases a)
  from Cons.prems have d: "distinct (map fst h)"
    and u: "\<forall>k' \<in> fst ` set h. EqualFold k' name \<longrightarrow> k' = k"
    by simp_all
  have IH: "hop_header name h = (case map_of h k of Some (v # vs) \<Rightarrow> Some v | _ \<Rightarrow> None)"
    by (rule Cons.IH [OF d u Cons.prems(3)])
  show ?case
  proof (cases "k' = k")
    case True
    from Cons.prems(1) a True have "k \<notin> fst ` set h" by simp
    then have n: "map_of h k = None" by (simp add: map_of_eq_None_iff)
    have "hop_header name h = None" using IH n by simp
    then show ?thesis unfolding a True using Cons.prems(3)
      by (simp split: list.splits)
  next
    case False
    from Cons.prems(2) a False have "\<not> EqualFold k' name" by simp
    then show ?thesis unfolding a using IH False
      by (simp split: list.splits)
  qed
qed

lemma hop_header_none:
  "\<forall>k' \<in> fst ` set h. \<not> EqualFold k' name \<Longrightarrow> hop_header name h = None"
proof (induction h)
  case Nil
  then show ?case by simp
next
  case (Cons a h)
  obtain k' vs' where a: "a = (k', vs')" by (cases a)
  from Cons.prems a have "\<not> EqualFold k' name" by simp
  moreover from Cons.prems have "hop_header name h = None" by (intro Cons.IH) simp
  ultimately show ?case unfolding a by (simp split: list.splits)
qed

lemma header_names_Cons: "header_names (r # rs) = fst ` set (resp_Header r) \<union> header_names rs"
  by (simp add: header_names_def)

lemma first_seen_unique:
  "\<forall>r \<in> set rs. distinct (map fst (resp_Header r)) \<Longrightarrow>
   \<forall>k' \<in> header_names rs. EqualFold k' name \<longrightarrow> k' = k \<Longrightarrow> EqualFold k name \<Longrightarrow>
   first_seen name rs = first_exact k rs"
proof (induction rs)
  case Nil
  then show ?case by simp
next
  case (Cons r rs)
  from Cons.prems(1) have d: "distinct (map fst (resp_Header r))"
    and ds: "\<forall>r \<in> set rs. distinct (map fst (resp_Header r))" by simp_all
  from Cons.prems(2) have u: "\<forall>k' \<in> fst ` set (resp_Header r). EqualFold k' name \<longrightarrow> k' = k"
    and us: "\<forall>k' \<in> header_names rs. EqualFold k' name \<longrightarrow> k' = k"
    by (simp_all add: header_names_Cons ball_Un)
  have IH: "first_seen name rs = first_exact k rs"
    by (rule Cons.IH [OF ds us Cons.prems(3)])
  have "hop_header name (resp_Header r) = (case map_of (resp_Header r) k of Some (v # vs) \<Rightarrow> Some v | _ \<Rightarrow> None)"
    by (rule hop_header_unique [OF d u Cons.prems(3)])
  with IH show ?case by (simp split: option.splits list.splits)
qed

lemma first_seen_none:
  "\<forall>k' \<in> header_names rs. \<not> EqualFold k' name \<Longrightarrow> first_seen name rs = None"
proof (induction rs)
  case Nil
  then show ?case by simp
next
  case (Cons r rs)
  from Cons.prems have n: "\<forall>k' \<in> fst ` set (resp_Header r). \<not> EqualFold k' name"
    and ns: "\<forall>k' \<in> header_names rs. \<not> EqualFold k' name"
    by (simp_all add: header_names_Cons ball_Un)
  have "first_seen name rs = None" by (rule Cons.IH [OF ns])
  moreover have "hop_header name (resp_Header r) = None" by (rule hop_header_none [OF n])
  ultimately show ?case by simp
qed

lemma accumulate_first_seen:
  assumes "canonical_names rs"
  shows "header_values name (accumulate [] rs) = (case first_seen name rs of None \<Rightarrow> [] | Some v \<Rightarrow> [v])"
proof -
  from assms have canon: "\<forall>k1 \<in> header_names rs. \<forall>k2 \<in> header_names rs. EqualFold k1 k2 \<longrightarrow> k1 = k2"
    and dist: "\<forall>r \<in> set rs. distinct (map fst (resp_Header r))"
    by (simp_all add: canonical_names_def)
  have keys: "fst ` set (accumulate [] rs) \<subseteq> header_names rs"
    using keys_accumulate [of "[]" rs] by simp
  have dacc: "distinct (map fst (accumulate [] rs))"
    by (rule distinct_accumulate) simp
  show ?thesis
  proof (cases "\<exists>k \<in> header_names rs. EqualFold k name")
    case True
    then obtain k where k: "k \<in> header_names rs" "EqualFold k name" by blast
    have uniq: "\<forall>k' \<in> header_names rs. EqualFold k' name \<longrightarrow> k' = k"
    proof (intro ballI impI)
      fix k' assume k': "k' \<in> header_names rs" "EqualFold k' name"
      from k'(2) k(2) have "EqualFold k' k" by (rule EqualFold_trans)
      with canon k'(1) k(1) show "k' = k" by blast
    qed
    then have uniq': "\<forall>k' \<in> fst ` set (accumulate [] rs). EqualFold k' name \<longrightarrow> k' = k"
      using keys by blast
    have "header_values name (accumulate [] rs) = (case map_of (accumulate [] rs) k of Some v \<Rightarrow> [v] | None \<Rightarrow> [])"
      by (rule header_values_unique [OF dacc uniq' k(2)])
    also have "map_of (accumulate [] rs) k = first_exact k rs"
      by (simp add: map_of_accumulate [OF dist])
    also have "first_exact k rs = first_seen name rs"
      by (rule first_seen_unique [OF dist uniq k(2), symmetric])
    finally show ?thesis by (simp split: option.splits)
  next
    case False
    then have no: "\<forall>k' \<in> header_names rs. \<not> EqualFold k' name" by blast
    then have "\<forall>k' \<in> fst ` set (accumulate [] rs). \<not> EqualFold k' name" using keys by blast
    then have "header_values name (accumulate [] rs) = []" by (rule header_values_none)
    with first_seen_none [OF no] show ?thesis by simp
  qed
qed

lemma header_lookup_values:
  "header_lookup name hs = (case header_values name hs of [] \<Rightarrow> [] | v # vs \<Rightarrow> v)"
proof (induction hs)
  case Nil
  then show ?case by (simp add: header_values_Nil)
next
  case (Cons a hs)
  obtain k v where a: "a = (k, v)" by (cases a)
  show ?case unfolding a using Cons.IH by (simp add: header_values_Cons)
qed

lemma makeRequest_ok:
  assumes "makeRequest w url cfg tr = (Inr ctx, tr')"
  shows "Body ctx = Join (filter (\<lambda>b. b \<noteq> []) (map resp_Body (responses (drop (length tr) tr')))) newline"
    and "Headers ctx = accumulate [] (responses (drop (length tr) tr'))"
    and "StatusCode ctx = 200"
proof -
  from assms have "makeRequest_loop w cfg url 0 [] [] (tr @ [Attempt url]) = (Inr ctx, tr')"
    by (simp add: makeRequest_def)
  from makeRequest_loop_ok [OF this]
  obtain new where new: "tr' = (tr @ [Attempt url]) @ new"
    "Body ctx = Join ([] @ filter (\<lambda>b. b \<noteq> []) (map resp_Body (responses new))) newline"
    "Headers ctx = foldl (\<lambda>h r. collect_headers (resp_Header r) h) [] (responses new)"
    "StatusCode ctx = 200"
    by blast
  from new(1) have "responses (drop (length tr) tr') = responses new" by simp
  with new show "Body ctx = Join (filter (\<lambda>b. b \<noteq> []) (map resp_Body (responses (drop (length tr) tr')))) newline"
    and "Headers ctx = accumulate [] (responses (drop (length tr) tr'))"
    and "StatusCode ctx = 200"
    by (simp_all add: accumulate_def)
qed

subsection \<open>The run of the redirect chain\<close>

lemma parse_a: "parseURL ''http://h/a'' = Inr \<lparr>scheme = ''http'', host = ''h'', port = ''80''\<rparr>"
  by (simp add: parseURL_def)
lemma parse_b: "parseURL ''http://h/b'' = Inr \<lparr>scheme = ''http'', host = ''h'', port = ''80''\<rparr>"
  by (simp add: parseURL_def)
lemma parse_c: "parseURL ''http://h/c'' = Inr \<lparr>scheme = ''http'', host = ''h'', port = ''80''\<rparr>"
  by (simp add: parseURL_def)
lemma resolve_b: "resolveURL ''http://h/a'' ''/b'' = Inr ''http://h/b''"
  by (simp add: resolveURL_def)
lemma resolve_c: "resolveURL ''http://h/b'' ''/c'' = Inr ''http://h/c''"
  by (simp add: resolveURL_def)

lemma resp_a_fields:
  "resp_StatusCode resp_a = 302"
  "resp_Header resp_a = [(''Location'', [''/b'']), (''Server'', [''one''])]"
  "resp_Body resp_a = ''alpha''"
  by (simp_all add: resp_a_def)

lemma resp_b_fields:
  "resp_StatusCode resp_b = 301"
  "resp_Header resp_b = [(''Location'', [''/c'']), (''Server'', [''two'']), (''X-Hop'', [''b''])]"
  "resp_Body resp_b = []"
  by (simp_all add: resp_b_def)

lemma resp_c_fields:
  "resp_StatusCode resp_c = 404"
  "resp_Header resp_c = [(''Server'', [''three'']), (''X-Hop'', [''c''])]"
  "resp_Body resp_c = ''gamma''"
  by (simp_all add: resp_c_def)

lemma hop_a: "n < 3 \<Longrightarrow> next_hop chain_world ''http://h/a'' n resp_a = Some ''http://h/b''"
  by (simp add: next_hop_def resp_a_fields chain_world_def Header_Get_def MaxRedirects_def
      parse_a parse_b resolve_b isSameDomain_def EqualFold_def)
lemma hop_b: "n < 3 \<Longrightarrow> next_hop chain_world ''http://h/b'' n resp_b = Some ''http://h/c''"
  by (simp add: next_hop_def resp_b_fields chain_world_def Header_Get_def MaxRedirects_def
      parse_b parse_c resolve_c isSameDomain_def EqualFold_def)
lemma hop_c: "next_hop chain_world ''http://h/c'' n resp_c = None"
  by (simp add: next_hop_def resp_c_fields)

lemma build_get: "build_request chain_world None url = Inr (get_request url)"
  by (simp add: build_request_def request_method_def chain_world_def get_request_def)

lemma do_a: "client_Do chain_world tr (get_request ''http://h/a'') = Responded resp_a"
  by (simp add: chain_world_def get_request_def)
lemma do_b: "client_Do chain_world tr (get_request ''http://h/b'') = Responded resp_b"
  by (simp add: chain_world_def get_request_def)
lemma do_c: "client_Do chain_world tr (get_request ''http://h/c'') = Responded resp_c"
  by (simp add: chain_world_def get_request_def)

lemma chain_run:
  "makeRequest chain_world ''http://h/a'' None [] = (Inr chain_context, chain_trace)"
proof -
  have c: "makeRequest_loop chain_world None ''http://h/c'' (Suc (Suc 0)) [''alpha'']
             [(''Location'', ''/b''), (''Server'', ''one''), (''X-Hop'', ''b'')]
             [Attempt ''http://h/a'',
              Exchange (get_request ''http://h/a'') (Responded resp_a),
              Exchange (get_request ''http://h/b'') (Responded resp_b)]
           = (Inr chain_context, chain_trace)"
    by (subst makeRequest_loop.simps)
       (simp add: build_get do_c hop_c resp_c_fields chain_context_def chain_trace_def)
  have b: "makeRequest_loop chain_world None ''http://h/b'' (Suc 0) [''alpha'']
             [(''Location'', ''/b''), (''Server'', ''one'')]
             [Attempt ''http://h/a'',
              Exchange (get_request ''http://h/a'') (Responded resp_a)]
           = (Inr chain_context, chain_trace)"
    by (subst makeRequest_loop.simps)
       (simp add: build_get do_b hop_b resp_b_fields c)
  have a: "makeRequest_loop chain_world None ''http://h/a'' 0 [] []
             [Attempt ''http://h/a''] = (Inr chain_context, chain_trace)"
    by (subst makeRequest_loop.simps)
       (simp add: build_get do_a hop_a resp_a_fields b)
  show ?thesis by (simp add: makeRequest_def a)
qed

lemma chain_hops: "responses chain_trace = [resp_a, resp_b, resp_c]"
  by (simp add: chain_trace_def)

lemma chain_canonical: "canonical_names [resp_a, resp_b, resp_c]"
  by (simp add: canonical_names_def header_names_def resp_a_fields resp_b_fields resp_c_fields
      EqualFold_def lower_ascii_def)

text \<open>
  C5, as amended. When \<open>makeRequest\<close> returns a context, its body is the responses'
  bodies of the chain in traversal order, the empty ones left out, joined by newlines; and
  for every header name, compared without regard to case, the context holds exactly the
  value of the earliest hop that carried the name (header names being canonical, as
  \<open>net/http\<close> delivers them), which is also what the evaluator's lookup finds.
\<close>

theorem redirect_chain_accumulation:
  assumes "makeRequest w url cfg tr = (Inr ctx, tr')"
    and "hops = responses (drop (length tr) tr')"
    and "canonical_names hops"
  shows "Body ctx = Join (filter (\<lambda>b. b \<noteq> []) (map resp_Body hops)) newline
    \<and> (\<forall>name. header_values name (Headers ctx) = (case first_seen name hops of None \<Rightarrow> [] | Some v \<Rightarrow> [v]))
    \<and> (\<forall>name. header_lookup name (Headers ctx) = (case first_seen name hops of None \<Rightarrow> [] | Some v \<Rightarrow> v))"
proof -
  have b: "Body ctx = Join (filter (\<lambda>b. b \<noteq> []) (map resp_Body hops)) newline"
    and h: "Headers ctx = accumulate [] hops"
    using makeRequest_ok [OF assms(1)] assms(2) by simp_all
  have v: "header_values name (Headers ctx) = (case first_seen name hops of None \<Rightarrow> [] | Some v \<Rightarrow> [v])" for name
    unfolding h by (rule accumulate_first_seen [OF assms(3)])
  have l: "header_lookup name (Headers ctx) = (case first_seen name hops of None \<Rightarrow> [] | Some v \<Rightarrow> v)" for name
    by (simp add: header_lookup_values v split: option.splits)
  from b v l show ?thesis by blast
qed

theorem redirect_chain_accumulation_witness:
  "makeRequest chain_world ''http://h/a'' None [] = (Inr chain_context, chain_trace)
   \<and> canonical_names [resp_a, resp_b, resp_c]
   \<and> Body chain_context = ''alpha'' @ newline @ ''gamma''
   \<and> Body chain_context = Join (filter (\<lambda>b. b \<noteq> []) (map resp_Body [resp_a, resp_b, resp_c])) newline
   \<and> header_values ''server'' (Headers chain_context) = [''one'']
   \<and> header_lookup ''x-hop'' (Headers chain_context) = ''b''
   \<and> first_seen ''x-hop'' [resp_a, resp_b, resp_c] = Some ''b''"
  using redirect_chain_accumulation [OF chain_run, of "[resp_a, resp_b, resp_c]"]
    chain_run chain_canonical
  by (simp add: chain_hops chain_context_def resp_a_fields resp_b_fields resp_c_fields EqualFold_def
      lower_ascii_def header_values_def)

text \<open>
  C5 as stated fails: the body is not the join of every hop's body. A hop with an empty
  body contributes nothing, not even its separator: the chain above yields
  \<open>alpha\<^verbatim>\<open>\n\<close>gamma\<close> where the join of the three bodies has two newlines.
\<close>

theorem every_hop_body_joined_counterexample:
  "\<not> (\<forall>w url cfg tr ctx tr'.
        makeRequest w url cfg tr = (Inr ctx, tr') \<longrightarrow>
        Body ctx = Join (map resp_Body (responses (drop (length tr) tr'))) newline)"
proof
  assume "\<forall>w url cfg tr ctx tr'.
        makeRequest w url cfg tr = (Inr ctx, tr') \<longrightarrow>
        Body ctx = Join (map resp_Body (responses (drop (length tr) tr'))) newline"
  with chain_run have "Body chain_context = Join (map resp_Body (responses (drop (length ([]::event list)) chain_trace))) newline"
    by blast
  then show False
    by (simp add: chain_hops chain_context_def resp_a_fields resp_b_fields resp_c_fields newline_def)
qed

subsection \<open>The retry wrapper\<close>

lemma requestWithRetry_unfold:
  "requestWithRetry w url cfg tr =
     (case makeRequest w url cfg tr of
        (Inr ctx, t1) \<Rightarrow> (Inr ctx, t1)
      | (Inl e1, t1) \<Rightarrow>
          (case makeRequest w url cfg (t1 @ [Sleep InitialBackoff]) of
             (Inr ctx, t2) \<Rightarrow> (Inr ctx, t2)
           | (Inl e2, t2) \<Rightarrow> (Inl (Wrap retry_annotation e2), t2)))"
proof -
  have end_loop: "requestWithRetry_loop w url cfg (Suc (Suc 0)) (Some e) t = (Inl (Wrap retry_annotation e), t)" for e t
    by (subst requestWithRetry_loop.simps) (simp add: MaxRetries_def)
  have second: "requestWithRetry_loop w url cfg (Suc 0) le t =
     (case makeRequest w url cfg t of
        (Inr ctx, t2) \<Rightarrow> (Inr ctx, t2)
      | (Inl e2, t2) \<Rightarrow> (Inl (Wrap retry_annotation e2), t2))" for le t
    by (subst requestWithRetry_loop.simps)
       (simp add: MaxRetries_def end_loop split: prod.splits sum.splits)
  show ?thesis
    unfolding requestWithRetry_def
    by (subst requestWithRetry_loop.simps)
       (simp add: MaxRetries_def second split: prod.splits sum.splits)
qed

text \<open>
  C6. When \<open>requestWithRetry\<close> returns an error, \<open>makeRequest\<close> was entered exactly
  twice, both attempts failed (with one backoff sleep of \<open>InitialBackoff\<close> between them),
  and the error is the second attempt's error wrapped with the annotation
  \<open>failed after 1 retries: \<close>. When it returns a context, that context is the result of
  the first attempt (one attempt made) or, the first having failed, of the second (two
  attempts made), and the trace ends where that attempt ended.
\<close>

theorem retry_wrapper_attempts:
  assumes "requestWithRetry w url cfg tr = (res, tr')"
  shows "(\<forall>err. res = Inl err \<longrightarrow>
            (\<exists>e1 t1 e2. makeRequest w url cfg tr = (Inl e1, t1)
               \<and> makeRequest w url cfg (t1 @ [Sleep InitialBackoff]) = (Inl e2, tr')
               \<and> err = Wrap retry_annotation e2
               \<and> attempts (drop (length tr) tr') = 2))
       \<and> (\<forall>ctx. res = Inr ctx \<longrightarrow>
            (makeRequest w url cfg tr = (Inr ctx, tr') \<and> attempts (drop (length tr) tr') = 1)
            \<or> (\<exists>e1 t1. makeRequest w url cfg tr = (Inl e1, t1)
                  \<and> makeRequest w url cfg (t1 @ [Sleep InitialBackoff]) = (Inr ctx, tr')
                  \<and> attempts (drop (length tr) tr') = 2))"
proof -
  obtain r1 t1 where m1: "makeRequest w url cfg tr = (r1, t1)" by (cases "makeRequest w url cfg tr")
  from makeRequest_trace [OF m1] obtain n1 where n1: "t1 = tr @ n1" "attempts n1 = 1" by blast
  show ?thesis
  proof (cases r1)
    case (Inr ctx)
    with assms m1 have "res = Inr ctx" "tr' = t1" by (simp_all add: requestWithRetry_unfold)
    with m1 Inr n1 show ?thesis by simp
  next
    case (Inl e1)
    obtain r2 t2 where m2: "makeRequest w url cfg (t1 @ [Sleep InitialBackoff]) = (r2, t2)"
      by (cases "makeRequest w url cfg (t1 @ [Sleep InitialBackoff])")
    from makeRequest_trace [OF m2] obtain n2 where n2: "t2 = (t1 @ [Sleep InitialBackoff]) @ n2" "attempts n2 = 1"
      by blast
    have cnt: "attempts (drop (length tr) t2) = 2"
      using n1 n2 by (simp add: attempts_append)
    show ?thesis
    proof (cases r2)
      case (Inr ctx)
      with assms m1 m2 Inl have "res = Inr ctx" "tr' = t2" by (simp_all add: requestWithRetry_unfold)
      with m1 m2 Inl Inr cnt show ?thesis by simp
    next
      case e2: (Inl e2)
      with assms m1 m2 Inl have "res = Inl (Wrap retry_annotation e2)" "tr' = t2"
        by (simp_all add: requestWithRetry_unfold)
      with m1 m2 Inl e2 cnt show ?thesis by simp
    qed
  qed
qed

lemma dead_attempt:
  "makeRequest dead_world url None tr =
     (Inl (Err ''context deadline exceeded''),
      tr @ [Attempt url, Exchange (get_request url) (DoFailed (Err ''context deadline exceeded''))])"
  unfolding makeRequest_def
  by (subst makeRequest_loop.simps)
     (simp add: build_request_def request_method_def dead_world_def get_request_def)

lemma dead_run:
  "requestWithRetry dead_world ''http://h/'' None [] =
     (Inl (Wrap retry_annotation (Err ''context deadline exceeded'')),
      [Attempt ''http://h/'',
       Exchange (get_request ''http://h/'') (DoFailed (Err ''context deadline exceeded'')),
       Sleep 1000000000,
       Attempt ''http://h/'',
       Exchange (get_request ''http://h/'') (DoFailed (Err ''context deadline exceeded''))])"
  by (simp add: requestWithRetry_unfold dead_attempt InitialBackoff_def)

lemma chain_retry_run:
  "requestWithRetry chain_world ''http://h/a'' None [] = (Inr chain_context, chain_trace)"
  by (simp add: requestWithRetry_unfold chain_run)

theorem retry_wrapper_attempts_witness:
  "(\<exists>err tr'. requestWithRetry dead_world ''http://h/'' None [] = (Inl err, tr')
       \<and> attempts (drop (length ([]::event list)) tr') = 2
       \<and> error_string err = ''failed after 1 retries: context deadline exceeded'')
   \<and> (\<exists>ctx tr'. requestWithRetry chain_world ''http://h/a'' None [] = (Inr ctx, tr')
       \<and> makeRequest chain_world ''http://h/a'' None [] = (Inr ctx, tr')
       \<and> attempts (drop (length ([]::event list)) tr') = 1)"
proof -
  from retry_wrapper_attempts [OF dead_run]
  have "attempts (drop (length ([]::event list))
          [Attempt ''http://h/'',
           Exchange (get_request ''http://h/'') (DoFailed (Err ''context deadline exceeded'')),
           Sleep 1000000000,
           Attempt ''http://h/'',
           Exchange (get_request ''http://h/'') (DoFailed (Err ''context deadline exceeded''))]) = 2"
    by blast
  moreover from retry_wrapper_attempts [OF chain_retry_run]
  have "makeRequest chain_world ''http://h/a'' None [] = (Inr chain_context, chain_trace)
        \<and> attempts (drop (length ([]::event list)) chain_trace) = 1"
    by (simp add: chain_run)
  ultimately show ?thesis
    using dead_run chain_retry_run by (simp add: retry_annotation_def)
qed

subsection \<open>The status marker\<close>

lemma getFieldValue_status: "getFieldValue fieldPath (ctx\<lparr>StatusCode := s\<rparr>) = getFieldValue fieldPath ctx"
  by (simp add: getFieldValue_def split: list.splits)

lemma evaluateField_status:
  "evaluateField rx fieldPath condition (ctx\<lparr>StatusCode := s\<rparr>) = evaluateField rx fieldPath condition ctx"
  by (simp add: evaluateField_def getFieldValue_status)

lemma evaluate_status:
  "evaluateQuery rx q (ctx\<lparr>StatusCode := s\<rparr>) = evaluateQuery rx q ctx"
  "evaluateOr rx v (ctx\<lparr>StatusCode := s\<rparr>) = evaluateOr rx v ctx"
  "or_loop rx vs (ctx\<lparr>StatusCode := s\<rparr>) = or_loop rx vs ctx"
  "evaluateAnd rx v (ctx\<lparr>StatusCode := s\<rparr>) = evaluateAnd rx v ctx"
  "and_loop rx vs ver (ctx\<lparr>StatusCode := s\<rparr>) = and_loop rx vs ver ctx"
  "evaluateNot rx v (ctx\<lparr>StatusCode := s\<rparr>) = evaluateNot rx v ctx"
  "evaluateNor rx v (ctx\<lparr>StatusCode := s\<rparr>) = evaluateNor rx v ctx"
  "nor_loop rx vs (ctx\<lparr>StatusCode := s\<rparr>) = nor_loop rx vs ctx"
  by (induction rx q ctx and rx v ctx and rx vs ctx and rx v ctx and rx vs ver ctx
        and rx v ctx and rx v ctx and rx vs ctx
      rule: evaluateQuery_evaluateOr_or_loop_evaluateAnd_and_loop_evaluateNot_evaluateNor_nor_loop.induct)
     (auto simp: evaluateField_status split: json.splits prod.splits)

text \<open>
  C10. A context returned by \<open>makeRequest\<close> or by \<open>requestWithRetry\<close> has status
  marker 200, whatever the status codes of the responses were; and the evaluator's answer
  does not depend on the status marker of the context.
\<close>

theorem fetched_status_always_200:
  "(makeRequest w url cfg tr = (Inr ctx, tr') \<longrightarrow> StatusCode ctx = 200)
   \<and> (requestWithRetry w url cfg tr = (Inr ctx, tr') \<longrightarrow> StatusCode ctx = 200)
   \<and> Evaluate rx query (c\<lparr>StatusCode := s\<rparr>) = Evaluate rx query c"
proof -
  have a: "StatusCode c = 200" if "makeRequest w url cfg t = (Inr c, t')" for c t t'
    using makeRequest_ok(3) [OF that] .
  have b: "StatusCode ctx = 200" if r: "requestWithRetry w url cfg tr = (Inr ctx, tr')"
    using r a by (auto simp: requestWithRetry_unfold split: prod.splits sum.splits)
  from a b show ?thesis by (simp add: Evaluate_def evaluate_status)
qed

theorem fetched_status_always_200_witness:
  "makeRequest chain_world ''http://h/a'' None [] = (Inr chain_context, chain_trace)
   \<and> map resp_StatusCode (responses chain_trace) = [302, 301, 404]
   \<and> StatusCode chain_context = 200"
  using fetched_status_always_200 [of chain_world "''http://h/a''" None "[]" chain_context chain_trace]
    chain_run
  by (simp add: chain_hops resp_a_fields resp_b_fields resp_c_fields)

end
